theory Spec2Isabelle
  imports Complex_Main "HOL-Library.Log_Nat"
begin

section \<open>Python floats: IEEE 754 binary64 with round-to-nearest-even\<close>

text \<open>
  A Python \<open>float\<close> is a binary64 number. A finite one is the rational it denotes; the
  two infinities and NaN are separate values. The sign of zero is not kept: no operation
  of the scripts tells \<open>-0.0\<close> from \<open>0.0\<close> (division by either raises, and only
  comparisons and sums are applied to results).
\<close>

datatype pyfloat = Fin rat | PInf | NInf | NaN

text \<open>\<open>ilog2 x\<close> is the binary exponent \<open>\<lfloor>log\<^sub>2 x\<rfloor>\<close> of a positive rational.\<close>

definition ilog2 :: "rat \<Rightarrow> int" where
  "ilog2 x = (let (p, q) = quotient_of x; d = bitlen p - bitlen q
              in if 2 powi d \<le> x then d else d - 1)"

text \<open>Rounding to the nearest integer, a tie going to the even neighbour.\<close>

definition round_half_even :: "rat \<Rightarrow> int" where
  "round_half_even y =
     (let f = \<lfloor>y\<rfloor>; r = y - of_int f
      in if r < 1 / 2 then f else if 1 / 2 < r then f + 1
         else if even f then f else f + 1)"

text \<open>
  The spacing of binary64 numbers around \<open>x\<close>: 53 significant bits in the normal range,
  the fixed spacing \<open>2\<^sup>-\<^sup>1\<^sup>0\<^sup>7\<^sup>4\<close> below \<open>2\<^sup>-\<^sup>1\<^sup>0\<^sup>2\<^sup>2\<close>.
\<close>

definition quantum :: "rat \<Rightarrow> rat" where
  "quantum x = 2 powi (max (ilog2 \<bar>x\<bar>) (- 1022) - 52)"

definition round64 :: "rat \<Rightarrow> rat" where
  "round64 x = (if x = 0 then 0
                else sgn x * of_int (round_half_even (\<bar>x\<bar> / quantum x)) * quantum x)"

text \<open>The result of an arithmetic operation whose exact value is \<open>x\<close>; overflow gives an infinity.\<close>

definition fl :: "rat \<Rightarrow> pyfloat" where
  "fl x = (let r = round64 x
           in if 2 ^ 1024 \<le> r then PInf else if r \<le> - (2 ^ 1024) then NInf else Fin r)"

text \<open>A rational is a binary64 number when rounding leaves it as it is.\<close>

definition is_double :: "rat \<Rightarrow> bool" where
  "is_double x = (fl x = Fin x)"

fun wf_float :: "pyfloat \<Rightarrow> bool" where
  "wf_float (Fin x) = is_double x"
| "wf_float _ = True"

fun is_finite :: "pyfloat \<Rightarrow> bool" where
  "is_finite (Fin x) = True"
| "is_finite _ = False"

fun fadd :: "pyfloat \<Rightarrow> pyfloat \<Rightarrow> pyfloat" where
  "fadd (Fin a) (Fin b) = fl (a + b)"
| "fadd NaN _ = NaN"
| "fadd _ NaN = NaN"
| "fadd PInf NInf = NaN"
| "fadd NInf PInf = NaN"
| "fadd PInf _ = PInf"
| "fadd _ PInf = PInf"
| "fadd NInf _ = NInf"
| "fadd _ NInf = NInf"

fun fmul :: "pyfloat \<Rightarrow> pyfloat \<Rightarrow> pyfloat" where
  "fmul (Fin a) (Fin b) = fl (a * b)"
| "fmul NaN _ = NaN"
| "fmul _ NaN = NaN"
| "fmul (Fin a) PInf = (if a = 0 then NaN else if 0 < a then PInf else NInf)"
| "fmul (Fin a) NInf = (if a = 0 then NaN else if 0 < a then NInf else PInf)"
| "fmul PInf (Fin b) = (if b = 0 then NaN else if 0 < b then PInf else NInf)"
| "fmul NInf (Fin b) = (if b = 0 then NaN else if 0 < b then NInf else PInf)"
| "fmul PInf PInf = PInf"
| "fmul NInf NInf = PInf"
| "fmul PInf NInf = NInf"
| "fmul NInf PInf = NInf"

text \<open>Python's comparisons \<open><=\<close>, \<open><\<close> and \<open>==\<close> on floats: every comparison with NaN is false.\<close>

fun fle :: "pyfloat \<Rightarrow> pyfloat \<Rightarrow> bool" where
  "fle (Fin a) (Fin b) = (a \<le> b)"
| "fle NaN _ = False"
| "fle _ NaN = False"
| "fle NInf _ = True"
| "fle _ PInf = True"
| "fle PInf _ = False"
| "fle _ NInf = False"

fun flt :: "pyfloat \<Rightarrow> pyfloat \<Rightarrow> bool" where
  "flt (Fin a) (Fin b) = (a < b)"
| "flt NaN _ = False"
| "flt _ NaN = False"
| "flt PInf _ = False"
| "flt _ NInf = False"
| "flt NInf _ = True"
| "flt _ PInf = True"

fun feq :: "pyfloat \<Rightarrow> pyfloat \<Rightarrow> bool" where
  "feq (Fin a) (Fin b) = (a = b)"
| "feq PInf PInf = True"
| "feq NInf NInf = True"
| "feq _ _ = False"

section \<open>Exceptions\<close>

text \<open>
  The exceptions the scripts can meet. \<open>Timeout\<close>, \<open>ConnectionError\<close> and
  \<open>RequestException\<close> are those of the \<open>requests\<close> library, \<open>RequestException\<close> standing for
  every subclass that is neither of the other two (an undecodable body among them); an
  exception that is both a timeout and a connection error counts as \<open>Timeout\<close>, the clause
  both scripts test first. The others are built-in exceptions; \<open>OtherException\<close> is any
  further subclass of \<open>Exception\<close>.
\<close>

datatype exn =
    Timeout | ConnectionError | RequestException
  | TypeError | KeyError | ValueError | ZeroDivisionError | OverflowError | OtherException

definition try_bind :: "exn + 'a \<Rightarrow> ('a \<Rightarrow> exn + 'b) \<Rightarrow> exn + 'b" where
  "try_bind m f = (case m of Inl e \<Rightarrow> Inl e | Inr x \<Rightarrow> f x)"

text \<open>\<open>float(n)\<close> for an integer, as the mixed operations \<open>int * float\<close> and \<open>float / int\<close> apply it.\<close>

definition py_float_of_int :: "int \<Rightarrow> exn + pyfloat" where
  "py_float_of_int n = (case fl (of_int n) of Fin r \<Rightarrow> Inr (Fin r) | _ \<Rightarrow> Inl OverflowError)"

text \<open>\<open>a / b\<close> on two integers: the exact quotient, rounded once.\<close>

definition int_truediv :: "int \<Rightarrow> int \<Rightarrow> exn + pyfloat" where
  "int_truediv a b =
     (if b = 0 then Inl ZeroDivisionError
      else case fl (of_int a / of_int b) of Fin r \<Rightarrow> Inr (Fin r) | _ \<Rightarrow> Inl OverflowError)"

text \<open>\<open>a / b\<close> on two floats.\<close>

fun float_truediv :: "pyfloat \<Rightarrow> pyfloat \<Rightarrow> exn + pyfloat" where
  "float_truediv a (Fin b) =
     (if b = 0 then Inl ZeroDivisionError
      else Inr (case a of
                  Fin x \<Rightarrow> fl (x / b)
                | PInf \<Rightarrow> if 0 < b then PInf else NInf
                | NInf \<Rightarrow> if 0 < b then NInf else PInf
                | NaN \<Rightarrow> NaN))"
| "float_truediv (Fin x) PInf = Inr (Fin 0)"
| "float_truediv (Fin x) NInf = Inr (Fin 0)"
| "float_truediv _ _ = Inr NaN"

definition float_truediv_int :: "pyfloat \<Rightarrow> int \<Rightarrow> exn + pyfloat" where
  "float_truediv_int a n = try_bind (py_float_of_int n) (float_truediv a)"

definition int_mul_float :: "int \<Rightarrow> pyfloat \<Rightarrow> exn + pyfloat" where
  "int_mul_float n p = try_bind (py_float_of_int n) (\<lambda>x. Inr (fmul x p))"

section \<open>Parsed JSON bodies\<close>

text \<open>
  What \<open>response.json()\<close> returns: a number is an \<open>int\<close> or a \<open>float\<close>, an object is a
  \<open>dict\<close>, given here by an association list whose first binding of a key is the value of
  the key.
\<close>

datatype json =
    JNull | JBool bool | JInt int | JFloat pyfloat | JStr string
  | JArr "json list" | JObj "(string \<times> json) list"

fun is_prefix :: "string \<Rightarrow> string \<Rightarrow> bool" where
  "is_prefix [] s = True"
| "is_prefix (c # p) [] = False"
| "is_prefix (c # p) (d # s) = (c = d \<and> is_prefix p s)"

fun is_substring :: "string \<Rightarrow> string \<Rightarrow> bool" where
  "is_substring p [] = (p = [])"
| "is_substring p (c # s) = (is_prefix p (c # s) \<or> is_substring p s)"

text \<open>\<open>key in data\<close> for a string \<open>key\<close>.\<close>

fun py_contains :: "string \<Rightarrow> json \<Rightarrow> exn + bool" where
  "py_contains k (JObj kvs) = Inr (map_of kvs k \<noteq> None)"
| "py_contains k (JArr xs) = Inr (JStr k \<in> set xs)"
| "py_contains k (JStr s) = Inr (is_substring k s)"
| "py_contains k _ = Inl TypeError"

text \<open>\<open>data[key]\<close> for a string \<open>key\<close>.\<close>

fun py_getitem :: "json \<Rightarrow> string \<Rightarrow> exn + json" where
  "py_getitem (JObj kvs) k = (case map_of kvs k of None \<Rightarrow> Inl KeyError | Some v \<Rightarrow> Inr v)"
| "py_getitem _ k = Inl TypeError"

text \<open>\<open>value / n\<close> for a parsed value and an integer constant \<open>n\<close>.\<close>

fun py_truediv :: "json \<Rightarrow> int \<Rightarrow> exn + pyfloat" where
  "py_truediv (JInt v) n = int_truediv v n"
| "py_truediv (JBool b) n = int_truediv (if b then 1 else 0) n"
| "py_truediv (JFloat f) n = float_truediv_int f n"
| "py_truediv _ n = Inl TypeError"

text \<open>The object has the field \<open>k\<close>.\<close>

fun has_field :: "json \<Rightarrow> string \<Rightarrow> bool" where
  "has_field (JObj kvs) k = (map_of kvs k \<noteq> None)"
| "has_field _ k = False"

section \<open>The network\<close>

text \<open>
  A request either raises or returns a response with a status code and a body, whose
  decoding by \<open>response.json()\<close> raises or gives a value. The network is an oracle: the
  outcome of the \<open>k\<close>-th request of a run. The world records the requests sent and the
  status lines printed.
\<close>

datatype request = HttpGet string | RpcPost string string "string list"

datatype outcome = Raises exn | Response nat "exn + json"

type_synonym network = "nat \<Rightarrow> request \<Rightarrow> outcome"

datatype msg =
    Probing string
  | Working json pyfloat
  | NoValidResult json
  | HttpError nat
  | TimedOut
  | ConnectionFailed
  | Unexpected exn
  | ServerResponds nat
  | ConnectTimedOut
  | ConnectFailed
  | ConnectWarning exn
  | RpcFunctional json
  | RpcErrorReported json
  | RpcCallFailed exn

record world =
  requested :: "request list"
  printed :: "msg list"

definition world0 :: world where
  "world0 = \<lparr>requested = [], printed = []\<rparr>"

definition send :: "network \<Rightarrow> request \<Rightarrow> world \<Rightarrow> outcome \<times> world" where
  "send net r w = (net (length (requested w)) r, w\<lparr>requested := requested w @ [r]\<rparr>)"

definition say :: "msg \<Rightarrow> world \<Rightarrow> world" where
  "say m w = w\<lparr>printed := printed w @ [m]\<rparr>"

section \<open>verificar\_balance.py\<close>

definition RPC_ENDPOINTS :: "string list" where
  "RPC_ENDPOINTS =
     [''https://api.mainnet-beta.solana.com'',
      ''https://solana-api.projectserum.com'',
      ''https://rpc.ankr.com/solana'',
      ''https://api.mainnet.solana.com'']"

definition LAMPORTS_PER_SOL :: int where
  "LAMPORTS_PER_SOL = 1000000000"

text \<open>
  The body of the \<open>try\<close> block of \<open>check_balance\<close> once the POST has an outcome: the
  status line printed and the value returned, or the exception raised.
\<close>

definition check_balance_try :: "outcome \<Rightarrow> exn + (msg \<times> (json \<times> pyfloat) option)" where
  "check_balance_try r =
     (case r of
        Raises e \<Rightarrow> Inl e
      | Response status_code body \<Rightarrow>
          if status_code = 200 then
            try_bind body (\<lambda>data.
            try_bind (py_contains ''result'' data) (\<lambda>has_result.
            if \<not> has_result then Inr (NoValidResult data, None)
            else
              try_bind (py_getitem data ''result'') (\<lambda>result.
              try_bind (py_contains ''value'' result) (\<lambda>has_value.
              if \<not> has_value then Inr (NoValidResult data, None)
              else
                try_bind (py_getitem result ''value'') (\<lambda>balance_lamports.
                try_bind (py_truediv balance_lamports LAMPORTS_PER_SOL) (\<lambda>balance_sol.
                Inr (Working balance_lamports balance_sol,
                     Some (balance_lamports, balance_sol))))))))
          else Inr (HttpError status_code, None))"

text \<open>The three \<open>except\<close> clauses, in the order of the source.\<close>

definition check_balance_except :: "exn \<Rightarrow> msg \<times> (json \<times> pyfloat) option" where
  "check_balance_except e =
     (if e = Timeout then (TimedOut, None)
      else if e = ConnectionError \<or> e = RequestException then (ConnectionFailed, None)
      else (Unexpected e, None))"

definition check_balance_outcome :: "outcome \<Rightarrow> msg \<times> (json \<times> pyfloat) option" where
  "check_balance_outcome r =
     (case check_balance_try r of Inl e \<Rightarrow> check_balance_except e | Inr out \<Rightarrow> out)"

definition check_balance ::
  "network \<Rightarrow> string \<Rightarrow> string \<Rightarrow> world \<Rightarrow> (json \<times> pyfloat) option \<times> world" where
  "check_balance net wallet_address rpc_url w =
     (let (r, w1) = send net (RpcPost rpc_url ''getBalance'' [wallet_address])
                      (say (Probing rpc_url) w);
          (m, res) = check_balance_outcome r
      in (res, say m w1))"

record estimate =
  blocks :: int
  price_per_block :: pyfloat
  subtotal :: pyfloat
  estimated_fee :: pyfloat
  total :: pyfloat

definition estimate_fees :: "int \<Rightarrow> pyfloat \<Rightarrow> exn + estimate" where
  "estimate_fees num_blocks price =
     try_bind (int_mul_float num_blocks price) (\<lambda>total_price.
       let fee = fl (5 / 1000000);
           total_needed = fadd total_price fee
       in Inr \<lparr>blocks = num_blocks, price_per_block = price, subtotal = total_price,
                estimated_fee = fee, total = total_needed\<rparr>)"

text \<open>The default of the parameter \<open>price_per_block\<close>: the literal \<open>0.001\<close>.\<close>

definition default_price :: pyfloat where
  "default_price = fl (1 / 1000)"

text \<open>
  The loop of \<open>main\<close> over the endpoints: \<open>balances\<close> and \<open>working_rpcs\<close> grow by an
  entry when \<open>check_balance\<close> returns a tuple, and stay as they are when it returns
  \<open>None\<close>.
\<close>

fun probe_loop ::
  "network \<Rightarrow> string \<Rightarrow> string list \<Rightarrow>
   (json \<times> pyfloat) list \<times> string list \<times> world \<Rightarrow>
   (json \<times> pyfloat) list \<times> string list \<times> world" where
  "probe_loop net wallet_address [] s = s"
| "probe_loop net wallet_address (rpc_url # rest) (balances, working_rpcs, w) =
     (case check_balance net wallet_address rpc_url w of
        (None, w') \<Rightarrow> probe_loop net wallet_address rest (balances, working_rpcs, w')
      | (Some result, w') \<Rightarrow>
          probe_loop net wallet_address rest
            (balances @ [result], working_rpcs @ [rpc_url], w'))"

text \<open>The built-ins \<open>sum\<close>, \<open>min\<close> and \<open>max\<close> on a list of floats.\<close>

definition py_sum :: "pyfloat list \<Rightarrow> pyfloat" where
  "py_sum vs = foldl fadd (Fin 0) vs"

fun min_from :: "pyfloat \<Rightarrow> pyfloat list \<Rightarrow> pyfloat" where
  "min_from m [] = m"
| "min_from m (x # xs) = min_from (if flt x m then x else m) xs"

fun max_from :: "pyfloat \<Rightarrow> pyfloat list \<Rightarrow> pyfloat" where
  "max_from m [] = m"
| "max_from m (x # xs) = max_from (if flt m x then x else m) xs"

definition py_min :: "pyfloat list \<Rightarrow> exn + pyfloat" where
  "py_min vs = (case vs of [] \<Rightarrow> Inl ValueError | v # rest \<Rightarrow> Inr (min_from v rest))"

definition py_max :: "pyfloat list \<Rightarrow> exn + pyfloat" where
  "py_max vs = (case vs of [] \<Rightarrow> Inl ValueError | v # rest \<Rightarrow> Inr (max_from v rest))"

record stats =
  avg_balance :: pyfloat
  min_balance :: pyfloat
  max_balance :: pyfloat

text \<open>The statistics of \<open>main\<close> (\<open>balance_values\<close>, \<open>avg_balance\<close>, \<open>min_balance\<close>, \<open>max_balance\<close>).\<close>

definition statistics :: "(json \<times> pyfloat) list \<Rightarrow> exn + stats" where
  "statistics balances =
     (let balance_values = map snd balances
      in try_bind (float_truediv_int (py_sum balance_values) (int (length balance_values)))
           (\<lambda>a. try_bind (py_min balance_values)
           (\<lambda>lo. try_bind (py_max balance_values)
           (\<lambda>hi. Inr \<lparr>avg_balance = a, min_balance = lo, max_balance = hi\<rparr>))))"

text \<open>
  The purchase examples of \<open>main\<close>: each estimate with its status, true for the check
  mark. The price is a parameter here; \<open>main\<close> calls \<open>estimate_fees\<close> with the default.
\<close>

definition affordable :: "estimate \<Rightarrow> pyfloat \<Rightarrow> bool" where
  "affordable e balance = fle (total e) balance"

fun purchases :: "pyfloat \<Rightarrow> pyfloat \<Rightarrow> int list \<Rightarrow> exn + (estimate \<times> bool) list" where
  "purchases balance price [] = Inr []"
| "purchases balance price (num_blocks # rest) =
     try_bind (estimate_fees num_blocks price) (\<lambda>e.
     try_bind (purchases balance price rest) (\<lambda>es.
     Inr ((e, affordable e balance) # es)))"

definition examples :: "int list" where
  "examples = [1, 10, 25, 50, 100]"

datatype report =
    EmptyAddress
  | Declined
  | NoBalance
  | NoFunds stats
  | Purchases stats "(estimate \<times> bool) list"

text \<open>
  \<open>main\<close>, from the wallet address as read and stripped and the answer to the question
  asked when its length is unusual (\<open>continuar.lower() != 's'\<close> holds unless the answer is
  \<open>s\<close> or \<open>S\<close>). \<open>NoBalance\<close> is the branch that prints the possible causes and returns.
\<close>

definition main :: "network \<Rightarrow> string \<Rightarrow> string \<Rightarrow> exn + (report \<times> world)" where
  "main net wallet_address continuar =
     (if wallet_address = [] then Inr (EmptyAddress, world0)
      else if (length wallet_address < 32 \<or> 44 < length wallet_address)
              \<and> \<not> (continuar = ''s'' \<or> continuar = ''S'')
      then Inr (Declined, world0)
      else
        let (balances, working_rpcs, w) =
              probe_loop net wallet_address RPC_ENDPOINTS ([], [], world0)
        in if balances = [] then Inr (NoBalance, w)
           else
             try_bind (statistics balances) (\<lambda>st.
               if feq (avg_balance st) (Fin 0) then Inr (NoFunds st, w)
               else try_bind (purchases (avg_balance st) default_price examples)
                      (\<lambda>tbl. Inr (Purchases st tbl, w))))"

section \<open>Diagnostico avanzado.py\<close>

text \<open>
  The second \<open>try\<close> block of \<open>test_rpc_basic\<close> once the POST has an outcome: the lines
  printed and the value returned (\<open>None\<close> when the function falls off its end).
\<close>

definition rpc_call_try :: "outcome \<Rightarrow> exn + (msg list \<times> bool option)" where
  "rpc_call_try r =
     (case r of
        Raises e \<Rightarrow> Inl e
      | Response status_code body \<Rightarrow>
          if status_code = 200 then
            try_bind body (\<lambda>data.
            try_bind (py_contains ''result'' data) (\<lambda>has_result.
            if has_result then
              try_bind (py_getitem data ''result'') (\<lambda>result.
              Inr ([RpcFunctional result], Some True))
            else
              try_bind (py_contains ''error'' data) (\<lambda>has_error.
              if has_error then
                try_bind (py_getitem data ''error'') (\<lambda>err.
                Inr ([RpcErrorReported err], Some False))
              else Inr ([], None))))
          else Inr ([HttpError status_code], Some False))"

text \<open>The \<open>except\<close> clause of that block prints the exception and returns \<open>False\<close>.\<close>

definition rpc_call_outcome :: "outcome \<Rightarrow> msg list \<times> bool option" where
  "rpc_call_outcome r =
     (case rpc_call_try r of Inl e \<Rightarrow> ([RpcCallFailed e], Some False) | Inr out \<Rightarrow> out)"

definition rpc_call :: "network \<Rightarrow> string \<Rightarrow> world \<Rightarrow> bool option \<times> world" where
  "rpc_call net rpc_url w =
     (let (r, w1) = send net (RpcPost rpc_url ''getHealth'' []) w;
          (ms, res) = rpc_call_outcome r
      in (res, w1\<lparr>printed := printed w1 @ ms\<rparr>))"

definition test_rpc_basic :: "network \<Rightarrow> string \<Rightarrow> world \<Rightarrow> bool option \<times> world" where
  "test_rpc_basic net rpc_url w =
     (let (g, w1) = send net (HttpGet rpc_url) (say (Probing rpc_url) w)
      in case g of
           Response status_code body \<Rightarrow> rpc_call net rpc_url (say (ServerResponds status_code) w1)
         | Raises e \<Rightarrow>
             if e = Timeout then (Some False, say ConnectTimedOut w1)
             else if e = ConnectionError then (Some False, say ConnectFailed w1)
             else rpc_call net rpc_url (say (ConnectWarning e) w1))"

section \<open>Rounding is monotone\<close>

lemma rhe_of_int: "round_half_even (of_int k) = k"
  by (simp add: round_half_even_def)

lemma rhe_floor: "\<lfloor>y\<rfloor> \<le> round_half_even y" "round_half_even y \<le> \<lfloor>y\<rfloor> + 1"
  by (simp_all add: round_half_even_def Let_def)

lemma rhe_mono:
  assumes "x \<le> y"
  shows "round_half_even x \<le> round_half_even y"
proof (cases "\<lfloor>x\<rfloor> = \<lfloor>y\<rfloor>")
  case True
  have "x - of_int \<lfloor>y\<rfloor> \<le> y - of_int \<lfloor>y\<rfloor>"
    using assms by simp
  then show ?thesis
    using True by (auto simp: round_half_even_def Let_def)
next
  case False
  have "\<lfloor>x\<rfloor> \<le> \<lfloor>y\<rfloor>"
    using assms by (rule floor_mono)
  with False have "\<lfloor>x\<rfloor> + 1 \<le> \<lfloor>y\<rfloor>"
    by simp
  then show ?thesis
    using rhe_floor(2) [of x] rhe_floor(1) [of y] by linarith
qed

lemma rhe_ge: "of_int k \<le> y \<Longrightarrow> k \<le> round_half_even y"
  using rhe_mono [of "of_int k" y] by (simp add: rhe_of_int)

lemma rhe_le: "y \<le> of_int k \<Longrightarrow> round_half_even y \<le> k"
  using rhe_mono [of y "of_int k"] by (simp add: rhe_of_int)

lemma two_powi_pos: "0 < (2::rat) powi k"
  by (simp add: power_int_def)

lemma two_powi_mono: "a \<le> b \<Longrightarrow> (2::rat) powi a \<le> 2 powi b"
  by (rule power_int_increasing) simp_all

lemma two_powi_add: "(2::rat) powi (a + b) = 2 powi a * 2 powi b"
  by (rule power_int_add) simp

lemma two_powi_diff: "(2::rat) powi (a - b) = 2 powi a / 2 powi b"
  by (rule power_int_diff) simp

lemma bitlen_rat_bounds:
  assumes "0 < p"
  shows "(2::rat) powi (bitlen p - 1) \<le> of_int p" and "of_int p < (2::rat) powi bitlen p"
proof -
  have b: "1 \<le> bitlen p"
    using assms bitlen_eq_zero_iff [of p] bitlen_nonneg [of p] by linarith
  have "(2::int) ^ nat (bitlen p - 1) \<le> p" and "p < 2 ^ nat (bitlen p)"
    using bitlen_bounds [OF assms] by simp_all
  then have "(of_int ((2::int) ^ nat (bitlen p - 1)) :: rat) \<le> of_int p"
    and "(of_int p :: rat) < of_int (2 ^ nat (bitlen p))"
    by (simp_all only: of_int_le_iff of_int_less_iff)
  then show "(2::rat) powi (bitlen p - 1) \<le> of_int p" and "of_int p < (2::rat) powi bitlen p"
    using b by (simp_all add: power_int_def)
qed

lemma ilog2_bounds:
  assumes "0 < x"
  shows "2 powi (ilog2 x) \<le> x" and "x < 2 powi (ilog2 x + 1)"
proof -
  obtain p q where pq: "quotient_of x = (p, q)"
    by (cases "quotient_of x")
  have q: "0 < q"
    using pq by (rule quotient_of_denom_pos)
  have x: "x = of_int p / of_int q"
    using pq by (rule quotient_of_div)
  have p: "0 < p"
    using assms q x by (simp add: zero_less_divide_iff)
  define d where "d = bitlen p - bitlen q"
  have lo: "2 powi (d - 1) \<le> x"
  proof -
    have "2 powi (d - 1) = (2::rat) powi (bitlen p - 1) / 2 powi bitlen q"
      by (simp add: d_def two_powi_diff [symmetric] algebra_simps)
    also have "\<dots> \<le> of_int p / of_int q"
      using bitlen_rat_bounds(1) [OF p] bitlen_rat_bounds(2) [OF q] p q
      by (intro frac_le) (simp_all add: two_powi_pos less_imp_le)
    finally show ?thesis
      by (simp add: x)
  qed
  have hi: "x < 2 powi (d + 1)"
  proof -
    have "of_int p / of_int q < (2::rat) powi bitlen p / 2 powi (bitlen q - 1)"
      using bitlen_rat_bounds(2) [OF p] bitlen_rat_bounds(1) [OF q] p
      by (intro frac_less) (simp_all add: two_powi_pos)
    also have "\<dots> = 2 powi (d + 1)"
      by (simp add: d_def two_powi_diff [symmetric] algebra_simps)
    finally show ?thesis
      by (simp add: x)
  qed
  have il: "ilog2 x = (if 2 powi d \<le> x then d else d - 1)"
    by (simp add: ilog2_def pq d_def Let_def)
  show "2 powi (ilog2 x) \<le> x"
    using lo by (simp add: il)
  show "x < 2 powi (ilog2 x + 1)"
    using hi by (auto simp: il not_le)
qed

lemma ilog2_unique:
  assumes "2 powi e \<le> x" and "x < 2 powi (e + 1)"
  shows "ilog2 x = e"
proof -
  have pos: "0 < x"
    using assms(1) two_powi_pos [of e] by linarith
  have "\<not> ilog2 x < e"
  proof
    assume "ilog2 x < e"
    then have "(2::rat) powi (ilog2 x + 1) \<le> 2 powi e"
      by (intro two_powi_mono) simp
    then show False
      using ilog2_bounds(2) [OF pos] assms(1) by linarith
  qed
  moreover have "\<not> e < ilog2 x"
  proof
    assume "e < ilog2 x"
    then have "(2::rat) powi (e + 1) \<le> 2 powi ilog2 x"
      by (intro two_powi_mono) simp
    then show False
      using ilog2_bounds(1) [OF pos] assms(2) by linarith
  qed
  ultimately show ?thesis
    by simp
qed

lemma ilog2_mono:
  assumes "0 < x" and "x \<le> y"
  shows "ilog2 x \<le> ilog2 y"
proof (rule ccontr)
  assume "\<not> ilog2 x \<le> ilog2 y"
  then have "(2::rat) powi (ilog2 y + 1) \<le> 2 powi ilog2 x"
    by (intro two_powi_mono) simp
  moreover have "0 < y"
    using assms by simp
  ultimately show False
    using ilog2_bounds(1) [OF assms(1)] ilog2_bounds(2) [of y] assms(2) by linarith
qed

lemma quantum_pos: "0 < quantum x"
  by (simp add: quantum_def two_powi_pos)

lemma quantum_minus: "quantum (- x) = quantum x"
  by (simp add: quantum_def)

lemma round64_minus: "round64 (- x) = - round64 x"
  by (simp add: round64_def quantum_minus sgn_minus)

lemma round64_pos_eq:
  "0 < x \<Longrightarrow> round64 x = of_int (round_half_even (x / quantum x)) * quantum x"
  by (simp add: round64_def)

lemma round64_nonneg:
  assumes "0 \<le> x"
  shows "0 \<le> round64 x"
proof (cases "x = 0")
  case True
  then show ?thesis by (simp add: round64_def)
next
  case False
  with assms have pos: "0 < x" by simp
  have "of_int 0 \<le> x / quantum x"
    using pos quantum_pos [of x] by simp
  then have "0 \<le> round_half_even (x / quantum x)"
    by (rule rhe_ge)
  then show ?thesis
    using quantum_pos [of x] by (simp add: round64_pos_eq [OF pos])
qed

lemma quantum_mono:
  assumes "0 < x" and "x \<le> y"
  shows "quantum x \<le> quantum y"
proof -
  have "ilog2 \<bar>x\<bar> \<le> ilog2 \<bar>y\<bar>"
    using assms ilog2_mono [of x y] by simp
  then show ?thesis
    unfolding quantum_def by (intro two_powi_mono) simp
qed

lemma quantum_scale:
  "2 ^ 52 * quantum x = 2 powi max (ilog2 \<bar>x\<bar>) (- 1022)"
  "2 ^ 53 * quantum x = 2 powi (max (ilog2 \<bar>x\<bar>) (- 1022) + 1)"
proof -
  let ?m = "max (ilog2 \<bar>x\<bar>) (- 1022)"
  have q: "quantum x = 2 powi ?m / 2 ^ 52"
    unfolding quantum_def by (subst two_powi_diff) simp
  show "2 ^ 52 * quantum x = 2 powi ?m"
    by (simp add: q)
  have "(2::rat) powi (?m + 1) = 2 powi ?m * 2 powi 1"
    by (rule two_powi_add)
  then show "2 ^ 53 * quantum x = 2 powi (?m + 1)"
    by (simp add: q)
qed

lemma quantum_upper:
  assumes "0 < x"
  shows "x \<le> 2 ^ 53 * quantum x"
proof -
  have "x < 2 powi (ilog2 x + 1)"
    using assms by (rule ilog2_bounds(2))
  also have "\<dots> \<le> 2 powi (max (ilog2 \<bar>x\<bar>) (- 1022) + 1)"
    using assms by (intro two_powi_mono) simp
  also have "\<dots> = 2 ^ 53 * quantum x"
    by (rule quantum_scale(2) [symmetric])
  finally show ?thesis by (rule less_imp_le)
qed

lemma quantum_lower:
  assumes "0 < x" and "quantum x \<noteq> 2 powi (- 1074)"
  shows "2 ^ 52 * quantum x \<le> x"
proof -
  have big: "- 1022 < ilog2 x"
  proof (rule ccontr)
    assume "\<not> - 1022 < ilog2 x"
    then have "max (ilog2 \<bar>x\<bar>) (- 1022) = - 1022"
      using assms(1) by simp
    then have "quantum x = 2 powi (- 1074)"
      by (simp add: quantum_def)
    with assms(2) show False by simp
  qed
  have "2 ^ 52 * quantum x = 2 powi max (ilog2 \<bar>x\<bar>) (- 1022)"
    by (rule quantum_scale(1))
  also have "\<dots> = 2 powi ilog2 x"
    using big assms(1) by simp
  also have "\<dots> \<le> x"
    using assms(1) by (rule ilog2_bounds(1))
  finally show ?thesis .
qed

lemma quantum_least: "2 powi (- 1074) \<le> quantum x"
  unfolding quantum_def by (intro two_powi_mono) simp

lemma round64_upper:
  assumes "0 < x"
  shows "round64 x \<le> 2 ^ 53 * quantum x"
proof -
  have "x / quantum x \<le> of_int (2 ^ 53)"
    using quantum_upper [OF assms] quantum_pos [of x] by (simp add: field_simps)
  then have "round_half_even (x / quantum x) \<le> 2 ^ 53"
    by (rule rhe_le)
  then have "(of_int (round_half_even (x / quantum x)) :: rat) \<le> of_int (2 ^ 53)"
    by (simp only: of_int_le_iff)
  then show ?thesis
    using quantum_pos [of x] by (simp add: round64_pos_eq [OF assms])
qed

lemma round64_lower:
  assumes "0 < x" and "quantum x \<noteq> 2 powi (- 1074)"
  shows "2 ^ 52 * quantum x \<le> round64 x"
proof -
  have "of_int (2 ^ 52) \<le> x / quantum x"
    using quantum_lower [OF assms] quantum_pos [of x] by (simp add: field_simps)
  then have "2 ^ 52 \<le> round_half_even (x / quantum x)"
    by (rule rhe_ge)
  then have "(of_int (2 ^ 52) :: rat) \<le> of_int (round_half_even (x / quantum x))"
    by (simp only: of_int_le_iff)
  then show ?thesis
    using quantum_pos [of x] by (simp add: round64_pos_eq [OF assms(1)])
qed

lemma quantum_step:
  assumes "quantum x < quantum y"
  shows "2 * quantum x \<le> quantum y"
proof -
  let ?a = "max (ilog2 \<bar>x\<bar>) (- 1022) - 52" and ?b = "max (ilog2 \<bar>y\<bar>) (- 1022) - 52"
  have "?a < ?b"
  proof (rule ccontr)
    assume "\<not> ?a < ?b"
    then have "?b \<le> ?a"
      by linarith
    then have "(2::rat) powi ?b \<le> 2 powi ?a"
      by (rule two_powi_mono)
    with assms show False by (simp add: quantum_def)
  qed
  then have "?a + 1 \<le> ?b"
    by linarith
  then have "(2::rat) powi (?a + 1) \<le> 2 powi ?b"
    by (rule two_powi_mono)
  moreover have "(2::rat) powi (?a + 1) = 2 powi ?a * 2 powi 1"
    by (rule two_powi_add)
  ultimately show ?thesis
    by (simp add: quantum_def)
qed

lemma round64_mono_pos:
  assumes "0 < x" and "x \<le> y"
  shows "round64 x \<le> round64 y"
proof (cases "quantum x = quantum y")
  case True
  have y: "0 < y" using assms by simp
  have "x / quantum y \<le> y / quantum y"
    using assms(2) quantum_pos [of y] by (simp add: divide_right_mono)
  then have "round_half_even (x / quantum y) \<le> round_half_even (y / quantum y)"
    by (rule rhe_mono)
  then have "(of_int (round_half_even (x / quantum y)) :: rat)
             \<le> of_int (round_half_even (y / quantum y))"
    by (simp only: of_int_le_iff)
  then show ?thesis
    using quantum_pos [of y] by (simp add: round64_pos_eq [OF assms(1)] round64_pos_eq [OF y] True)
next
  case False
  have y: "0 < y" using assms by simp
  have lt: "quantum x < quantum y"
    using quantum_mono [OF assms] False by simp
  have ne: "quantum y \<noteq> 2 powi (- 1074)"
    using lt quantum_least [of x] by simp
  have "round64 x \<le> 2 ^ 53 * quantum x"
    using assms(1) by (rule round64_upper)
  also have "\<dots> \<le> 2 ^ 52 * quantum y"
    using quantum_step [OF lt] by simp
  also have "\<dots> \<le> round64 y"
    using y ne by (rule round64_lower)
  finally show ?thesis .
qed

lemma round64_mono:
  assumes "x \<le> y"
  shows "round64 x \<le> round64 y"
proof -
  consider "0 < x" | "x \<le> 0" "0 \<le> y" | "y < 0"
    by linarith
  then show ?thesis
  proof cases
    case 1
    then show ?thesis using assms by (rule round64_mono_pos)
  next
    case 2
    have "round64 x = - round64 (- x)"
      by (simp add: round64_minus)
    moreover have "0 \<le> round64 (- x)"
      using 2(1) by (intro round64_nonneg) simp
    moreover have "0 \<le> round64 y"
      using 2(2) by (rule round64_nonneg)
    ultimately show ?thesis by simp
  next
    case 3
    have "round64 (- y) \<le> round64 (- x)"
      using 3 assms by (intro round64_mono_pos) simp_all
    then show ?thesis
      by (simp add: round64_minus)
  qed
qed


section \<open>Evaluating a rounding\<close>

lemma rhe_nearest:
  assumes "\<bar>y - of_int k\<bar> < 1 / 2"
  shows "round_half_even y = k"
proof -
  have lo: "of_int k - 1 / 2 < y" and hi: "y < of_int k + 1 / 2"
    using assms by linarith+
  show ?thesis
  proof (cases "of_int k \<le> y")
    case True
    have f: "\<lfloor>y\<rfloor> = k"
      using True hi by (intro floor_unique) linarith+
    have "y - of_int \<lfloor>y\<rfloor> < 1 / 2"
      unfolding f using hi by linarith
    then show ?thesis
      by (simp add: round_half_even_def Let_def f)
  next
    case False
    have f: "\<lfloor>y\<rfloor> = k - 1"
      using False lo by (intro floor_unique) (simp, linarith)+
    have "1 / 2 < y - of_int \<lfloor>y\<rfloor>"
      unfolding f using lo by simp
    then have "\<not> y - of_int \<lfloor>y\<rfloor> < 1 / 2"
      by linarith
    then show ?thesis
      using \<open>1 / 2 < y - of_int \<lfloor>y\<rfloor>\<close> unfolding round_half_even_def Let_def f by simp
  qed
qed

lemma rhe_tie_up:
  assumes "y = of_int k - 1 / 2" and "even k"
  shows "round_half_even y = k"
proof -
  have f: "\<lfloor>y\<rfloor> = k - 1"
    by (rule floor_unique) (simp_all add: assms(1))
  have "y - of_int \<lfloor>y\<rfloor> = 1 / 2"
    unfolding f by (simp add: assms(1))
  then show ?thesis
    using assms(2) by (simp add: round_half_even_def Let_def f)
qed

lemma rhe_tie_down:
  assumes "y = of_int k + 1 / 2" and "even k"
  shows "round_half_even y = k"
proof -
  have f: "\<lfloor>y\<rfloor> = k"
    by (rule floor_unique) (simp_all add: assms(1))
  have "y - of_int \<lfloor>y\<rfloor> = 1 / 2"
    unfolding f by (simp add: assms(1))
  then show ?thesis
    using assms(2) by (simp add: round_half_even_def Let_def f)
qed

lemma round64_eval:
  assumes "0 < x" and "2 powi e \<le> x" and "x < 2 powi (e + 1)" and "- 1022 \<le> e"
    and "round_half_even (x / 2 powi (e - 52)) = k"
  shows "round64 x = of_int k * 2 powi (e - 52)"
proof -
  have "ilog2 x = e"
    using assms(2,3) by (rule ilog2_unique)
  then have "quantum x = 2 powi (e - 52)"
    using assms(1,4) by (simp add: quantum_def)
  then show ?thesis
    using assms(1,5) by (simp add: round64_pos_eq)
qed

lemma fl_eval:
  assumes "2 powi e \<le> x" and "x < 2 powi (e + 1)" and "- 1022 \<le> e"
    and "round_half_even (x / 2 powi (e - 52)) = k"
    and "r = of_int k * 2 powi (e - 52)" and "r < 2 ^ 1024"
  shows "fl x = Fin r"
proof -
  have x: "0 < x"
    using assms(1) two_powi_pos [of e] by linarith
  have "round64 x = r"
    using x assms(1-4) unfolding assms(5) by (rule round64_eval)
  moreover have "0 \<le> round64 x"
    using x by (intro round64_nonneg) simp
  ultimately show ?thesis
    using assms(6) by (simp add: fl_def Let_def)
qed

lemma fl_nearest:
  assumes "2 powi e \<le> x" and "x < 2 powi (e + 1)" and "- 1022 \<le> e"
    and "\<bar>x / 2 powi (e - 52) - of_int k\<bar> < 1 / 2"
    and "r = of_int k * 2 powi (e - 52)" and "r < 2 ^ 1024"
  shows "fl x = Fin r"
  using assms(1-3) rhe_nearest [OF assms(4)] assms(5,6) by (rule fl_eval)

lemma fl_tie_up:
  assumes "2 powi e \<le> x" and "x < 2 powi (e + 1)" and "- 1022 \<le> e"
    and "x / 2 powi (e - 52) = of_int k - 1 / 2" and "even k"
    and "r = of_int k * 2 powi (e - 52)" and "r < 2 ^ 1024"
  shows "fl x = Fin r"
  using assms(1-3) rhe_tie_up [OF assms(4,5)] assms(6,7) by (rule fl_eval)

lemma fl_tie_down:
  assumes "2 powi e \<le> x" and "x < 2 powi (e + 1)" and "- 1022 \<le> e"
    and "x / 2 powi (e - 52) = of_int k + 1 / 2" and "even k"
    and "r = of_int k * 2 powi (e - 52)" and "r < 2 ^ 1024"
  shows "fl x = Fin r"
  using assms(1-3) rhe_tie_down [OF assms(4,5)] assms(6,7) by (rule fl_eval)


section \<open>Order and arithmetic of floats\<close>

lemma fl_cases:
  obtains (fin) "fl x = Fin (round64 x)" "- (2 ^ 1024) < round64 x" "round64 x < 2 ^ 1024"
  | (pinf) "fl x = PInf" "2 ^ 1024 \<le> round64 x"
  | (ninf) "fl x = NInf" "round64 x \<le> - (2 ^ 1024)"
  unfolding fl_def Let_def by (cases "2 ^ 1024 \<le> round64 x"; cases "round64 x \<le> - (2 ^ 1024)") auto

lemma fl_not_NaN [simp]: "fl x \<noteq> NaN"
  by (simp add: fl_def Let_def)

lemma fl_mono:
  assumes "x \<le> y"
  shows "fle (fl x) (fl y)"
proof -
  have "round64 x \<le> round64 y"
    using assms by (rule round64_mono)
  then show ?thesis
    by (cases x rule: fl_cases; cases y rule: fl_cases) simp_all
qed

lemma fl_finite:
  assumes "- (2 ^ 1024) < round64 x" and "round64 x < 2 ^ 1024"
  shows "fl x = Fin (round64 x)"
  using assms by (simp add: fl_def Let_def)

lemma fle_refl: "a \<noteq> NaN \<Longrightarrow> fle a a"
  by (cases a) simp_all

lemma fle_trans: "fle a b \<Longrightarrow> fle b c \<Longrightarrow> fle a c"
  by (cases a; cases b; cases c) simp_all

lemma flt_imp_fle: "flt a b \<Longrightarrow> fle a b"
  by (cases a; cases b) simp_all

lemma not_flt_imp_fle: "\<not> flt a b \<Longrightarrow> a \<noteq> NaN \<Longrightarrow> b \<noteq> NaN \<Longrightarrow> fle b a"
  by (cases a; cases b) simp_all

lemma fl_Fin_round64: "fl x = Fin r \<Longrightarrow> round64 x = r"
  by (simp add: fl_def Let_def split: if_splits)

lemma fl_1: "fl 1 = Fin 1"
  by (rule fl_nearest [where e = 0 and k = 4503599627370496]) (simp_all add: power_int_minus)

lemma fl_2_64: "fl (2 ^ 64) = Fin (2 ^ 64)"
  by (rule fl_nearest [where e = 64 and k = 4503599627370496]) (simp_all add: power_int_minus)

lemma round64_2_64: "round64 (2 ^ 64) = 2 ^ 64"
  using fl_2_64 by (rule fl_Fin_round64)

lemma fl_nonneg_below:
  assumes "0 \<le> x" and "x \<le> 2 ^ 64"
  shows "fl x = Fin (round64 x)"
proof (rule fl_finite)
  have "0 \<le> round64 x"
    using assms(1) by (rule round64_nonneg)
  then show "- (2 ^ 1024) < round64 x"
    by (rule less_le_trans [rotated]) simp
  have "round64 x \<le> round64 (2 ^ 64)"
    using assms(2) by (rule round64_mono)
  also have "\<dots> = 2 ^ 64"
    by (rule round64_2_64)
  also have "\<dots> < (2::rat) ^ 1024"
    by (rule power_strict_increasing) simp_all
  finally show "round64 x < 2 ^ 1024" .
qed

lemma min_from_props:
  assumes "m \<noteq> NaN" and "\<forall>x \<in> set xs. x \<noteq> NaN"
  shows "min_from m xs \<in> set (m # xs) \<and> (\<forall>y \<in> set (m # xs). fle (min_from m xs) y)"
  using assms
proof (induction xs arbitrary: m)
  case Nil
  then show ?case by (simp add: fle_refl)
next
  case (Cons x xs)
  let ?m = "if flt x m then x else m"
  have x: "x \<noteq> NaN" using Cons.prems(2) by simp
  have m': "?m \<noteq> NaN" using Cons.prems(1) x by simp
  have ih: "min_from ?m xs \<in> set (?m # xs)" "\<forall>y \<in> set (?m # xs). fle (min_from ?m xs) y"
    using Cons.IH [OF m'] Cons.prems(2) by simp_all
  have le_m': "fle (min_from ?m xs) ?m"
    using ih(2) by simp
  have "fle ?m m" "fle ?m x"
    using Cons.prems(1) x by (auto simp: fle_refl flt_imp_fle not_flt_imp_fle)
  then have "fle (min_from ?m xs) m" "fle (min_from ?m xs) x"
    using le_m' fle_trans by blast+
  then show ?case
    using ih by (auto split: if_splits)
qed

lemma max_from_props:
  assumes "m \<noteq> NaN" and "\<forall>x \<in> set xs. x \<noteq> NaN"
  shows "max_from m xs \<in> set (m # xs) \<and> (\<forall>y \<in> set (m # xs). fle y (max_from m xs))"
  using assms
proof (induction xs arbitrary: m)
  case Nil
  then show ?case by (simp add: fle_refl)
next
  case (Cons x xs)
  let ?m = "if flt m x then x else m"
  have x: "x \<noteq> NaN" using Cons.prems(2) by simp
  have m': "?m \<noteq> NaN" using Cons.prems(1) x by simp
  have ih: "max_from ?m xs \<in> set (?m # xs)" "\<forall>y \<in> set (?m # xs). fle y (max_from ?m xs)"
    using Cons.IH [OF m'] Cons.prems(2) by simp_all
  have le_m': "fle ?m (max_from ?m xs)"
    using ih(2) by simp
  have "fle m ?m" "fle x ?m"
    using Cons.prems(1) x by (auto simp: fle_refl flt_imp_fle not_flt_imp_fle)
  then have "fle m (max_from ?m xs)" "fle x (max_from ?m xs)"
    using le_m' fle_trans by blast+
  then show ?case
    using ih by (auto split: if_splits)
qed

lemma py_float_of_len:
  assumes "n < 2 ^ 63"
  shows "py_float_of_int (int n) = Inr (Fin (round64 (of_nat n)))"
proof -
  have "(of_nat n :: rat) < of_nat (2 ^ 63)"
    using assms by (simp only: of_nat_less_iff)
  then have "(of_nat n :: rat) \<le> 2 ^ 64"
    by simp
  then have "fl (of_nat n) = Fin (round64 (of_nat n))"
    by (intro fl_nonneg_below) simp_all
  then show ?thesis
    by (simp add: py_float_of_int_def)
qed

lemma round64_len_pos:
  assumes "0 < n"
  shows "0 < round64 (of_nat n)"
proof -
  have "round64 1 \<le> round64 (of_nat n)"
    using assms by (intro round64_mono) simp
  moreover have "round64 1 = 1"
    using fl_1 by (rule fl_Fin_round64)
  ultimately show ?thesis by simp
qed

lemma float_truediv_len:
  assumes "0 < n" and "n < 2 ^ 63"
  shows "\<exists>a. float_truediv_int s (int n) = Inr a"
  using py_float_of_len [OF assms(2)] round64_len_pos [OF assms(1)]
  by (simp add: float_truediv_int_def try_bind_def)


section \<open>The endpoint loop\<close>

text \<open>\<open>check_balance\<close> sends one POST, the next request of the run, and prints two lines.\<close>

lemma check_balance_eq:
  "check_balance net wa u w =
     (snd (check_balance_outcome (net (length (requested w)) (RpcPost u ''getBalance'' [wa]))),
      \<lparr>requested = requested w @ [RpcPost u ''getBalance'' [wa]],
       printed = printed w @ [Probing u,
         fst (check_balance_outcome (net (length (requested w)) (RpcPost u ''getBalance'' [wa])))]\<rparr>)"
  by (simp add: check_balance_def send_def say_def Let_def split: prod.splits)

lemma probe_loop_requested:
  "requested (snd (snd (probe_loop net wa eps (bs, ws, w)))) =
     requested w @ map (\<lambda>u. RpcPost u ''getBalance'' [wa]) eps"
proof (induction eps arbitrary: bs ws w)
  case Nil
  then show ?case by simp
next
  case (Cons u us)
  show ?case
    by (cases "snd (check_balance_outcome (net (length (requested w)) (RpcPost u ''getBalance'' [wa])))")
       (simp_all add: check_balance_eq Cons.IH)
qed

lemma probe_loop_results:
  "fst (probe_loop net wa eps (bs, ws, w)) =
     bs @ List.map_filter
            (\<lambda>(k, u). snd (check_balance_outcome (net k (RpcPost u ''getBalance'' [wa]))))
            (enumerate (length (requested w)) eps)"
  "fst (snd (probe_loop net wa eps (bs, ws, w))) =
     ws @ map snd (filter
            (\<lambda>(k, u). snd (check_balance_outcome (net k (RpcPost u ''getBalance'' [wa]))) \<noteq> None)
            (enumerate (length (requested w)) eps))"
proof (induction eps arbitrary: bs ws w)
  case Nil
  {
    case 1
    show ?case by (simp add: List.map_filter_simps)
  next
    case 2
    show ?case by simp
  }
next
  case (Cons u us)
  {
    case 1
    show ?case
      by (cases "snd (check_balance_outcome (net (length (requested w)) (RpcPost u ''getBalance'' [wa])))")
         (simp_all add: check_balance_eq Cons.IH List.map_filter_simps)
  next
    case 2
    show ?case
      by (cases "snd (check_balance_outcome (net (length (requested w)) (RpcPost u ''getBalance'' [wa])))")
         (simp_all add: check_balance_eq Cons.IH)
  }
qed

lemma map_filter_all_None:
  "(\<And>x. x \<in> set xs \<Longrightarrow> f x = None) \<Longrightarrow> List.map_filter f xs = []"
  by (induction xs) (simp_all add: List.map_filter_simps)

lemma length_map_filter_le: "length (List.map_filter f xs) \<le> length xs"
  by (simp add: List.map_filter_def)

lemma length_map_filter_eq:
  "length (List.map_filter f xs) = length (filter (\<lambda>x. f x \<noteq> None) xs)"
  by (simp add: List.map_filter_def)

text \<open>
  Claim C2. Whatever the endpoint list and whatever happens at an endpoint, the loop sends
  the \<open>getBalance\<close> request to every endpoint of the list, in order. An exception raised
  anywhere in the \<open>try\<close> block of \<open>check_balance\<close> (a timeout, a connection error, any
  other exception) does not leave the function: the call returns \<open>None\<close>, the lists of the
  loop stay as they were, and the loop goes on with the remaining endpoints.
\<close>

theorem probe_loop_attempts_all:
  "requested (snd (snd (probe_loop net wallet_address eps (balances, working_rpcs, w)))) =
     requested w @ map (\<lambda>u. RpcPost u ''getBalance'' [wallet_address]) eps
   \<and> (\<forall>rpc_url e.
        check_balance_try (net (length (requested w)) (RpcPost rpc_url ''getBalance'' [wallet_address]))
          = Inl e
        \<longrightarrow> fst (check_balance net wallet_address rpc_url w) = None
          \<and> probe_loop net wallet_address (rpc_url # eps) (balances, working_rpcs, w)
            = probe_loop net wallet_address eps
                (balances, working_rpcs, snd (check_balance net wallet_address rpc_url w)))"
proof (intro conjI allI impI)
  show "requested (snd (snd (probe_loop net wallet_address eps (balances, working_rpcs, w)))) =
     requested w @ map (\<lambda>u. RpcPost u ''getBalance'' [wallet_address]) eps"
    by (rule probe_loop_requested)
next
  fix rpc_url e
  assume "check_balance_try (net (length (requested w)) (RpcPost rpc_url ''getBalance'' [wallet_address]))
          = Inl e"
  then have none: "snd (check_balance_outcome
      (net (length (requested w)) (RpcPost rpc_url ''getBalance'' [wallet_address]))) = None"
    by (simp add: check_balance_outcome_def check_balance_except_def)
  then show "fst (check_balance net wallet_address rpc_url w) = None"
    by (simp add: check_balance_eq)
  then show "probe_loop net wallet_address (rpc_url # eps) (balances, working_rpcs, w)
            = probe_loop net wallet_address eps
                (balances, working_rpcs, snd (check_balance net wallet_address rpc_url w))"
    by (cases "check_balance net wallet_address rpc_url w") simp
qed

text \<open>
  Claim C1, as amended. The loop keeps a result only for an endpoint whose probe
  succeeded: \<open>balances\<close> holds the tuples returned by \<open>check_balance\<close>, in the order of
  the endpoints, \<open>working_rpcs\<close> the endpoints that returned them, and neither is longer
  than the endpoint list.
\<close>

theorem probe_loop_one_result_per_success:
  "fst (probe_loop net wallet_address eps ([], [], w)) =
     List.map_filter
       (\<lambda>(k, u). snd (check_balance_outcome (net k (RpcPost u ''getBalance'' [wallet_address]))))
       (enumerate (length (requested w)) eps)
   \<and> fst (snd (probe_loop net wallet_address eps ([], [], w))) =
     map snd (filter
       (\<lambda>(k, u). snd (check_balance_outcome (net k (RpcPost u ''getBalance'' [wallet_address])))
                  \<noteq> None)
       (enumerate (length (requested w)) eps))
   \<and> length (fst (probe_loop net wallet_address eps ([], [], w))) =
     length (fst (snd (probe_loop net wallet_address eps ([], [], w))))
   \<and> length (fst (probe_loop net wallet_address eps ([], [], w))) \<le> length eps"
proof -
  let ?f = "\<lambda>(k, u). snd (check_balance_outcome (net k (RpcPost u ''getBalance'' [wallet_address])))"
  let ?xs = "enumerate (length (requested w)) eps"
  have 1: "fst (probe_loop net wallet_address eps ([], [], w)) = List.map_filter ?f ?xs"
    by (simp add: probe_loop_results(1))
  have p: "(\<lambda>(k, u). snd (check_balance_outcome (net k (RpcPost u ''getBalance'' [wallet_address])))
                  \<noteq> None) = (\<lambda>x. ?f x \<noteq> None)"
    by (simp add: fun_eq_iff split: prod.splits)
  have 2: "fst (snd (probe_loop net wallet_address eps ([], [], w))) =
             map snd (filter (\<lambda>x. ?f x \<noteq> None) ?xs)"
    by (simp only: probe_loop_results(2) p append_Nil)
  have 3: "length (List.map_filter ?f ?xs) = length (map snd (filter (\<lambda>x. ?f x \<noteq> None) ?xs))"
    by (simp only: length_map_filter_eq length_map)
  have 4: "length (List.map_filter ?f ?xs) \<le> length eps"
    using length_map_filter_le [of ?f ?xs] by simp
  show ?thesis
    unfolding p using 1 2 3 4 by simp
qed

text \<open>
  Claim C1 as stated fails: with one endpoint that times out, the caller receives no
  result at all.
\<close>

theorem probe_loop_fewer_results:
  "length (fst (probe_loop (\<lambda>k r. Raises Timeout) ''w''
       [''https://api.mainnet-beta.solana.com''] ([], [], world0)))
   < length [''https://api.mainnet-beta.solana.com'']"
  by (simp add: check_balance_eq check_balance_outcome_def check_balance_try_def
      check_balance_except_def)

text \<open>
  Claim C3. When the probe of every endpoint fails, \<open>main\<close> finds \<open>balances\<close> empty,
  computes no statistics, prints the possible causes and returns normally, having asked
  every endpoint.
\<close>

theorem main_no_balance:
  assumes "wallet_address \<noteq> []"
    and "(32 \<le> length wallet_address \<and> length wallet_address \<le> 44)
         \<or> continuar = ''s'' \<or> continuar = ''S''"
    and "\<forall>k < length RPC_ENDPOINTS.
           snd (check_balance_outcome
                  (net k (RpcPost (RPC_ENDPOINTS ! k) ''getBalance'' [wallet_address]))) = None"
  shows "\<exists>w. main net wallet_address continuar = Inr (NoBalance, w)
             \<and> requested w = map (\<lambda>u. RpcPost u ''getBalance'' [wallet_address]) RPC_ENDPOINTS"
proof -
  obtain balances working_rpcs w where
    loop: "probe_loop net wallet_address RPC_ENDPOINTS ([], [], world0) = (balances, working_rpcs, w)"
    by (cases "probe_loop net wallet_address RPC_ENDPOINTS ([], [], world0)") auto
  have "balances = fst (probe_loop net wallet_address RPC_ENDPOINTS ([], [], world0))"
    by (simp add: loop)
  also have "\<dots> = List.map_filter
       (\<lambda>(k, u). snd (check_balance_outcome (net k (RpcPost u ''getBalance'' [wallet_address]))))
       (enumerate 0 RPC_ENDPOINTS)"
    by (simp add: probe_loop_results(1) world0_def)
  also have "\<dots> = []"
    using assms(3) by (intro map_filter_all_None) (auto simp: in_set_enumerate_eq)
  finally have empty: "balances = []" .
  have "requested w = requested (snd (snd (probe_loop net wallet_address RPC_ENDPOINTS ([], [], world0))))"
    by (simp add: loop)
  then have req: "requested w = map (\<lambda>u. RpcPost u ''getBalance'' [wallet_address]) RPC_ENDPOINTS"
    by (simp add: probe_loop_requested world0_def)
  have "main net wallet_address continuar = Inr (NoBalance, w)"
    using assms(1,2) by (auto simp: main_def loop empty)
  with req show ?thesis by blast
qed

section \<open>Classifying a response\<close>

lemma test_rpc_basic_eq:
  assumes "net (length (requested w)) (HttpGet u) \<noteq> Raises Timeout"
    and "net (length (requested w)) (HttpGet u) \<noteq> Raises ConnectionError"
  shows "fst (test_rpc_basic net u w) =
           snd (rpc_call_outcome (net (Suc (length (requested w))) (RpcPost u ''getHealth'' [])))"
    and "\<exists>m. printed (snd (test_rpc_basic net u w)) =
           printed w @ [Probing u, m]
             @ fst (rpc_call_outcome (net (Suc (length (requested w))) (RpcPost u ''getHealth'' [])))"
  using assms
  by (auto simp: test_rpc_basic_def rpc_call_def send_def say_def Let_def
           split: prod.splits outcome.splits)

lemma fl_zero: "fl 0 = Fin 0"
  by (simp add: fl_def round64_def)

text \<open>
  Claim C7 as stated fails: both scripts look for \<open>result\<close> first, so a body with status
  200 that holds a \<open>result\<close> beside its \<open>error\<close> is a success.
\<close>

theorem result_checked_before_error:
  "snd (check_balance_outcome (Response 200 (Inr (JObj
      [(''result'', JObj [(''value'', JInt 0)]), (''error'', JStr ''busy'')]))))
     = Some (JInt 0, Fin 0)
   \<and> snd (rpc_call_outcome (Response 200 (Inr (JObj
      [(''result'', JStr ''ok''), (''error'', JStr ''busy'')]))))
     = Some True"
  by (simp add: check_balance_outcome_def check_balance_try_def rpc_call_outcome_def
      rpc_call_try_def try_bind_def int_truediv_def LAMPORTS_PER_SOL_def fl_zero)

lemma error_only_outcomes:
  assumes "map_of kvs ''error'' = Some err" and "map_of kvs ''result'' = None"
  shows "rpc_call_outcome (Response 200 (Inr (JObj kvs))) = ([RpcErrorReported err], Some False)"
    and "check_balance_outcome (Response 200 (Inr (JObj kvs))) = (NoValidResult (JObj kvs), None)"
  using assms
  by (simp_all add: check_balance_outcome_def check_balance_try_def rpc_call_outcome_def
      rpc_call_try_def try_bind_def)

text \<open>
  Claim C7, as amended. For a response with status 200 whose body is an object with an
  \<open>error\<close> field and no \<open>result\<close> field, \<open>test_rpc_basic\<close> reports the RPC error with
  its payload and returns \<open>False\<close>; \<open>check_balance\<close> returns \<open>None\<close> and prints the whole
  body under the line for a response without a valid result.
\<close>

theorem rpc_error_without_result:
  assumes "map_of kvs ''error'' = Some err" and "map_of kvs ''result'' = None"
    and "net (length (requested w)) (HttpGet u) \<noteq> Raises Timeout"
    and "net (length (requested w)) (HttpGet u) \<noteq> Raises ConnectionError"
    and "net (Suc (length (requested w))) (RpcPost u ''getHealth'' []) = Response 200 (Inr (JObj kvs))"
    and "net' (length (requested w)) (RpcPost u ''getBalance'' [wallet_address])
           = Response 200 (Inr (JObj kvs))"
  shows "fst (test_rpc_basic net u w) = Some False
       \<and> last (printed (snd (test_rpc_basic net u w))) = RpcErrorReported err
       \<and> fst (check_balance net' wallet_address u w) = None
       \<and> last (printed (snd (check_balance net' wallet_address u w))) = NoValidResult (JObj kvs)"
proof -
  obtain m where "printed (snd (test_rpc_basic net u w)) =
      printed w @ [Probing u, m] @ [RpcErrorReported err]"
    using test_rpc_basic_eq(2) [of net w u, OF assms(3,4)] error_only_outcomes(1) [OF assms(1,2)] assms(5)
    by auto
  then have "last (printed (snd (test_rpc_basic net u w))) = RpcErrorReported err"
    by simp
  moreover have "fst (test_rpc_basic net u w) = Some False"
    using test_rpc_basic_eq(1) [of net w u, OF assms(3,4)] error_only_outcomes(1) [OF assms(1,2)] assms(5)
    by simp
  moreover have "fst (check_balance net' wallet_address u w) = None"
    and "last (printed (snd (check_balance net' wallet_address u w))) = NoValidResult (JObj kvs)"
    using error_only_outcomes(2) [OF assms(1,2)] assms(6) by (simp_all add: check_balance_eq)
  ultimately show ?thesis by simp
qed

lemma no_result_check_balance:
  assumes "\<not> has_field data ''result''"
  shows "snd (check_balance_outcome (Response 200 (Inr data))) = None"
  using assms
  by (cases data)
     (auto simp: check_balance_outcome_def check_balance_try_def check_balance_except_def
        try_bind_def)

lemma no_result_rpc_call:
  assumes "\<not> has_field data ''result''"
  shows "snd (rpc_call_outcome (Response 200 (Inr data))) \<noteq> Some True"
  using assms
  by (cases data)
     (auto simp: rpc_call_outcome_def rpc_call_try_def try_bind_def split: option.splits)

text \<open>
  Claim C8. A response with status 200 whose body has neither a \<open>result\<close> nor an
  \<open>error\<close> field is a failure: \<open>check_balance\<close> returns \<open>None\<close>, as it does for a
  timeout, and \<open>test_rpc_basic\<close> does not return \<open>True\<close>.
\<close>

theorem neither_result_nor_error:
  assumes "\<not> has_field data ''result''" and "\<not> has_field data ''error''"
    and "net (length (requested w)) (RpcPost u ''getBalance'' [wallet_address])
           = Response 200 (Inr data)"
    and "net' (Suc (length (requested w))) (RpcPost u ''getHealth'' []) = Response 200 (Inr data)"
  shows "fst (check_balance net wallet_address u w) = None
       \<and> fst (check_balance net wallet_address u w)
           = fst (check_balance (\<lambda>k r. Raises Timeout) wallet_address u w)
       \<and> fst (test_rpc_basic net' u w) \<noteq> Some True"
proof -
  have "fst (check_balance net wallet_address u w) = None"
    using no_result_check_balance [OF assms(1)] assms(3) by (simp add: check_balance_eq)
  moreover have "fst (check_balance (\<lambda>k r. Raises Timeout) wallet_address u w) = None"
    by (simp add: check_balance_eq check_balance_outcome_def check_balance_try_def
        check_balance_except_def)
  moreover have "fst (test_rpc_basic net' u w) \<noteq> Some True"
  proof (cases "net' (length (requested w)) (HttpGet u) = Raises Timeout
              \<or> net' (length (requested w)) (HttpGet u) = Raises ConnectionError")
    case True
    then show ?thesis
      by (auto simp: test_rpc_basic_def send_def say_def Let_def)
  next
    case False
    then show ?thesis
      using test_rpc_basic_eq(1) [of net' w u] no_result_rpc_call [OF assms(1)] assms(4)
      by simp
  qed
  ultimately show ?thesis by simp
qed

theorem probe_loop_attempts_all_witness:
  "check_balance_try ((\<lambda>k r. Raises Timeout) (length (requested world0))
      (RpcPost ''a'' ''getBalance'' [''w''])) = Inl Timeout
   \<and> fst (check_balance (\<lambda>k r. Raises Timeout) ''w'' ''a'' world0) = None
   \<and> requested (snd (snd (probe_loop (\<lambda>k r. Raises Timeout) ''w'' [''a'', ''b''] ([], [], world0))))
       = [RpcPost ''a'' ''getBalance'' [''w''], RpcPost ''b'' ''getBalance'' [''w'']]"
proof -
  have h: "check_balance_try ((\<lambda>k r. Raises Timeout) (length (requested world0))
      (RpcPost ''a'' ''getBalance'' [''w''])) = Inl Timeout"
    by (simp add: check_balance_try_def)
  have "fst (check_balance (\<lambda>k r. Raises Timeout) ''w'' ''a'' world0) = None"
    using probe_loop_attempts_all [of "\<lambda>k r. Raises Timeout" "''w''" "[''b'']" "[]" "[]" world0] h
    by blast
  moreover have "requested (snd (snd (probe_loop (\<lambda>k r. Raises Timeout) ''w'' [''a'', ''b'']
      ([], [], world0)))) = [RpcPost ''a'' ''getBalance'' [''w''], RpcPost ''b'' ''getBalance'' [''w'']]"
    using probe_loop_attempts_all [of "\<lambda>k r. Raises Timeout" "''w''" "[''a'', ''b'']" "[]" "[]" world0]
    by (simp add: world0_def)
  ultimately show ?thesis using h by simp
qed

theorem main_no_balance_witness:
  "\<exists>w. main (\<lambda>k r. Raises Timeout) ''11111111111111111111111111111111'' [] = Inr (NoBalance, w)
       \<and> requested w = map (\<lambda>u. RpcPost u ''getBalance'' [''11111111111111111111111111111111''])
           RPC_ENDPOINTS"
proof -
  have 1: "''11111111111111111111111111111111'' \<noteq> []"
    by simp
  have 2: "(32 \<le> length ''11111111111111111111111111111111''
            \<and> length ''11111111111111111111111111111111'' \<le> 44) \<or> [] = ''s'' \<or> [] = ''S''"
    by simp
  have 3: "\<forall>k < length RPC_ENDPOINTS.
           snd (check_balance_outcome ((\<lambda>k r. Raises Timeout) k
                  (RpcPost (RPC_ENDPOINTS ! k) ''getBalance'' [''11111111111111111111111111111111''])))
             = None"
    by (simp add: check_balance_outcome_def check_balance_try_def check_balance_except_def)
  show ?thesis
    using main_no_balance [OF 1 2 3] .
qed

theorem rpc_error_without_result_witness:
  "fst (test_rpc_basic (\<lambda>k r. Response 200 (Inr (JObj [(''error'', JStr ''invalid'')]))) ''u'' world0)
     = Some False
   \<and> last (printed (snd (test_rpc_basic
        (\<lambda>k r. Response 200 (Inr (JObj [(''error'', JStr ''invalid'')]))) ''u'' world0)))
     = RpcErrorReported (JStr ''invalid'')
   \<and> fst (check_balance (\<lambda>k r. Response 200 (Inr (JObj [(''error'', JStr ''invalid'')])))
        ''w'' ''u'' world0) = None
   \<and> last (printed (snd (check_balance
        (\<lambda>k r. Response 200 (Inr (JObj [(''error'', JStr ''invalid'')]))) ''w'' ''u'' world0)))
     = NoValidResult (JObj [(''error'', JStr ''invalid'')])"
  by (rule rpc_error_without_result) simp_all

theorem neither_result_nor_error_witness:
  "fst (check_balance (\<lambda>k r. Response 200 (Inr (JObj [(''id'', JInt 1)]))) ''w'' ''u'' world0) = None
   \<and> fst (check_balance (\<lambda>k r. Response 200 (Inr (JObj [(''id'', JInt 1)]))) ''w'' ''u'' world0)
       = fst (check_balance (\<lambda>k r. Raises Timeout) ''w'' ''u'' world0)
   \<and> fst (test_rpc_basic (\<lambda>k r. Response 200 (Inr (JObj [(''id'', JInt 1)]))) ''u'' world0)
       \<noteq> Some True"
  by (rule neither_result_nor_error [where data = "JObj [(''id'', JInt 1)]"]) simp_all


section \<open>Concrete roundings\<close>

lemma fl_2: "fl (2) = Fin (2)"
  by (rule fl_nearest [where e = 1 and k = 4503599627370496]) (simp_all add: power_int_minus)

lemma fl_3: "fl (3) = Fin (3)"
  by (rule fl_nearest [where e = 1 and k = 6755399441055744]) (simp_all add: power_int_minus)

lemma fl_3_2: "fl (3 / 2) = Fin (3 / 2)"
  by (rule fl_nearest [where e = 0 and k = 6755399441055744]) (simp_all add: power_int_minus)

lemma fl_9_10: "fl (9 / 10) = Fin (8106479329266893 / 9007199254740992)"
  by (rule fl_nearest [where e = "- 1" and k = 8106479329266893]) (simp_all add: power_int_minus)

lemma fl_11_10: "fl (11 / 10) = Fin (2476979795053773 / 2251799813685248)"
  by (rule fl_nearest [where e = 0 and k = 4953959590107546]) (simp_all add: power_int_minus)

lemma fl_1_10: "fl (1 / 10) = Fin (3602879701896397 / 36028797018963968)"
  by (rule fl_nearest [where e = "- 4" and k = 7205759403792794]) (simp_all add: power_int_minus)

lemma fl_d09: "fl (8106479329266893 / 9007199254740992) = Fin (8106479329266893 / 9007199254740992)"
  by (rule fl_nearest [where e = "- 1" and k = 8106479329266893]) (simp_all add: power_int_minus)

lemma fl_d09_1: "fl (17113678584007885 / 9007199254740992) = Fin (4278419646001971 / 2251799813685248)"
  by (rule fl_tie_down [where e = 0 and k = 8556839292003942]) (simp_all add: power_int_minus)

lemma fl_d01: "fl (3602879701896397 / 36028797018963968) = Fin (3602879701896397 / 36028797018963968)"
  by (rule fl_nearest [where e = "- 4" and k = 7205759403792794]) (simp_all add: power_int_minus)

lemma fl_d01_2: "fl (3602879701896397 / 18014398509481984) = Fin (3602879701896397 / 18014398509481984)"
  by (rule fl_nearest [where e = "- 3" and k = 7205759403792794]) (simp_all add: power_int_minus)

lemma fl_d01_3: "fl (10808639105689191 / 36028797018963968) = Fin (1351079888211149 / 4503599627370496)"
  by (rule fl_tie_up [where e = "- 2" and k = 5404319552844596]) (simp_all add: power_int_minus)

lemma fl_d03_div: "fl (1351079888211149 / 13510798882111488) = Fin (7205759403792795 / 72057594037927936)"
  by (rule fl_nearest [where e = "- 4" and k = 7205759403792795]) (simp_all add: power_int_minus)


section \<open>Lamports and SOL\<close>

lemma check_balance_outcome_Some:
  assumes "snd (check_balance_outcome r) = Some (l, s)"
  shows "py_truediv l LAMPORTS_PER_SOL = Inr s"
  using assms
  by (auto simp: check_balance_outcome_def check_balance_try_def check_balance_except_def
        try_bind_def split: outcome.splits sum.splits if_splits)

lemma int_truediv_Inr:
  assumes "int_truediv a b = Inr s"
  shows "s = Fin (round64 (of_int a / of_int b))"
proof (cases "of_int a / of_int b :: rat" rule: fl_cases)
  case fin
  then show ?thesis
    using assms by (simp add: int_truediv_def split: if_splits)
next
  case pinf
  then show ?thesis
    using assms by (simp add: int_truediv_def split: if_splits)
next
  case ninf
  then show ?thesis
    using assms by (simp add: int_truediv_def split: if_splits)
qed

text \<open>
  Claim C6. Whenever \<open>check_balance\<close> returns a sample, its SOL amount is the quotient
  of the lamports value by \<open>LAMPORTS_PER_SOL\<close> as Python's \<open>/\<close> computes it. For an
  integer number of lamports that is the exact quotient by 1,000,000,000, rounded once to
  the nearest binary64 number: nothing is rounded before the division, and the amount is
  the exact quotient whenever that is a binary64 number.
\<close>

theorem lamports_to_sol:
  assumes "fst (check_balance net wallet_address rpc_url w) = Some (balance_lamports, balance_sol)"
  shows "py_truediv balance_lamports LAMPORTS_PER_SOL = Inr balance_sol
       \<and> (\<forall>v. balance_lamports = JInt v \<longrightarrow>
              balance_sol = Fin (round64 (of_int v / 1000000000))
              \<and> (is_double (of_int v / 1000000000) \<longrightarrow> balance_sol = Fin (of_int v / 1000000000)))"
proof -
  have 1: "py_truediv balance_lamports LAMPORTS_PER_SOL = Inr balance_sol"
    using assms by (intro check_balance_outcome_Some) (simp add: check_balance_eq)
  have 2: "balance_sol = Fin (round64 (of_int v / 1000000000))" if "balance_lamports = JInt v" for v
    using 1 int_truediv_Inr [of v LAMPORTS_PER_SOL balance_sol] that
    by (simp add: LAMPORTS_PER_SOL_def)
  have 3: "round64 x = x" if "is_double x" for x
    using that unfolding is_double_def by (rule fl_Fin_round64)
  show ?thesis
    using 1 2 3 by simp
qed

lemma check_balance_value:
  assumes "net (length (requested w)) (RpcPost u ''getBalance'' [wa])
             = Response 200 (Inr (JObj [(''result'', JObj [(''value'', JInt v)])]))"
    and "fl (of_int v / 1000000000) = Fin s"
  shows "fst (check_balance net wa u w) = Some (JInt v, Fin s)"
  using assms
  by (simp add: check_balance_eq check_balance_outcome_def check_balance_try_def try_bind_def
      int_truediv_def LAMPORTS_PER_SOL_def)

text \<open>1,500,000,000 lamports are 1.5 SOL, and 0 lamports are 0.0 SOL.\<close>

theorem lamports_to_sol_witness:
  "fst (check_balance
     (\<lambda>k r. Response 200 (Inr (JObj [(''result'', JObj [(''value'', JInt 1500000000)])])))
     ''w'' ''u'' world0) = Some (JInt 1500000000, Fin (3 / 2))
   \<and> py_truediv (JInt 1500000000) LAMPORTS_PER_SOL = Inr (Fin (3 / 2))
   \<and> fst (check_balance
     (\<lambda>k r. Response 200 (Inr (JObj [(''result'', JObj [(''value'', JInt 0)])])))
     ''w'' ''u'' world0) = Some (JInt 0, Fin 0)
   \<and> py_truediv (JInt 0) LAMPORTS_PER_SOL = Inr (Fin 0)"
proof -
  let ?net = "\<lambda>v. (\<lambda>k r. Response 200 (Inr (JObj [(''result'', JObj [(''value'', JInt v)])])))"
  have a: "fst (check_balance (?net 1500000000) ''w'' ''u'' world0) = Some (JInt 1500000000, Fin (3 / 2))"
    by (rule check_balance_value) (simp_all add: fl_3_2)
  have b: "fst (check_balance (?net 0) ''w'' ''u'' world0) = Some (JInt 0, Fin 0)"
    by (rule check_balance_value) (simp_all add: fl_zero)
  show ?thesis
    using a b lamports_to_sol [OF a] lamports_to_sol [OF b] by simp
qed


section \<open>Statistics\<close>

text \<open>
  Claim C4. For a non-empty list of samples (a Python list has fewer than \<open>2\<^sup>6\<^sup>3\<close>
  elements) none of which is NaN, the statistics of \<open>main\<close> exist: the average is the
  float sum of the SOL values divided by their count, the minimum is a sample below all
  samples and the maximum a sample above all of them.
\<close>

theorem statistics_average_min_max:
  assumes "balances \<noteq> []" and "length balances < 2 ^ 63"
    and "\<forall>b \<in> set balances. snd b \<noteq> NaN"
  shows "\<exists>st. statistics balances = Inr st
           \<and> float_truediv_int (py_sum (map snd balances)) (int (length balances))
               = Inr (avg_balance st)
           \<and> min_balance st \<in> snd ` set balances
           \<and> (\<forall>b \<in> set balances. fle (min_balance st) (snd b))
           \<and> max_balance st \<in> snd ` set balances
           \<and> (\<forall>b \<in> set balances. fle (snd b) (max_balance st))"
proof -
  obtain v vs where vs: "map snd balances = v # vs"
    using assms(1) by (cases balances) auto
  have nan: "v \<noteq> NaN" "\<forall>x \<in> set vs. x \<noteq> NaN"
  proof -
    have "\<forall>x \<in> set (map snd balances). x \<noteq> NaN"
      using assms(3) by simp
    then show "v \<noteq> NaN" "\<forall>x \<in> set vs. x \<noteq> NaN"
      by (simp_all add: vs)
  qed
  have set: "set (v # vs) = snd ` set balances"
    using vs by (metis set_map)
  obtain a where a: "float_truediv_int (py_sum (map snd balances)) (int (length balances)) = Inr a"
    using float_truediv_len [of "length balances"] assms(1,2) by auto
  let ?st = "\<lparr>avg_balance = a, min_balance = min_from v vs, max_balance = max_from v vs\<rparr>"
  have mn: "py_min (map snd balances) = Inr (min_from v vs)"
    and mx: "py_max (map snd balances) = Inr (max_from v vs)"
    by (simp_all add: py_min_def py_max_def vs)
  have "statistics balances =
      try_bind (float_truediv_int (py_sum (map snd balances)) (int (length balances)))
        (\<lambda>a. try_bind (py_min (map snd balances))
        (\<lambda>lo. try_bind (py_max (map snd balances))
        (\<lambda>hi. Inr \<lparr>avg_balance = a, min_balance = lo, max_balance = hi\<rparr>)))"
    by (simp add: statistics_def Let_def)
  then have st: "statistics balances = Inr ?st"
    by (simp only: a mn mx try_bind_def sum.case)
  have "min_from v vs \<in> snd ` set balances" "\<forall>b \<in> set balances. fle (min_from v vs) (snd b)"
    using min_from_props [OF nan] set by auto
  moreover have "max_from v vs \<in> snd ` set balances"
    "\<forall>b \<in> set balances. fle (snd b) (max_from v vs)"
    using max_from_props [OF nan] set by auto
  ultimately show ?thesis
    using st a by simp
qed


lemma statistics_ones:
  "statistics [(JInt 1000000000, fl 1), (JInt 1000000000, fl 1), (JInt 1000000000, fl 1)]
     = Inr \<lparr>avg_balance = fl 1, min_balance = fl 1, max_balance = fl 1\<rparr>"
  by (simp add: statistics_def py_sum_def float_truediv_int_def py_float_of_int_def try_bind_def
      py_min_def py_max_def fl_1 fl_2 fl_3)

lemma statistics_spread:
  "statistics [(JInt 900000000, fl (9 / 10)), (JInt 1000000000, fl 1),
               (JInt 1100000000, fl (11 / 10))]
     = Inr \<lparr>avg_balance = fl 1, min_balance = fl (9 / 10), max_balance = fl (11 / 10)\<rparr>"
  by (simp add: statistics_def py_sum_def float_truediv_int_def py_float_of_int_def try_bind_def
      py_min_def py_max_def fl_1 fl_3 fl_9_10 fl_11_10 fl_d09 fl_d09_1)

text \<open>
  The samples \<open>[1.0, 1.0, 1.0]\<close> give average, minimum and maximum \<open>1.0\<close>; the samples
  \<open>[0.9, 1.0, 1.1]\<close> give average \<open>1.0\<close>, minimum \<open>0.9\<close> and maximum \<open>1.1\<close>.
\<close>

theorem statistics_average_min_max_witness:
  "statistics [(JInt 1000000000, fl 1), (JInt 1000000000, fl 1), (JInt 1000000000, fl 1)]
     = Inr \<lparr>avg_balance = fl 1, min_balance = fl 1, max_balance = fl 1\<rparr>
   \<and> float_truediv_int (py_sum [fl 1, fl 1, fl 1]) 3 = Inr (fl 1)
   \<and> statistics [(JInt 900000000, fl (9 / 10)), (JInt 1000000000, fl 1),
                 (JInt 1100000000, fl (11 / 10))]
     = Inr \<lparr>avg_balance = fl 1, min_balance = fl (9 / 10), max_balance = fl (11 / 10)\<rparr>
   \<and> float_truediv_int (py_sum [fl (9 / 10), fl 1, fl (11 / 10)]) 3 = Inr (fl 1)
   \<and> fle (fl (9 / 10)) (fl 1) \<and> fle (fl 1) (fl (11 / 10))"
proof -
  let ?a = "[(JInt 1000000000, fl 1), (JInt 1000000000, fl 1), (JInt 1000000000, fl 1)]"
  let ?b = "[(JInt 900000000, fl (9 / 10)), (JInt 1000000000, fl 1), (JInt 1100000000, fl (11 / 10))]"
  have "float_truediv_int (py_sum [fl 1, fl 1, fl 1]) 3 = Inr (fl 1)"
    using statistics_average_min_max [of ?a] statistics_ones by auto
  moreover have "float_truediv_int (py_sum [fl (9 / 10), fl 1, fl (11 / 10)]) 3 = Inr (fl 1)
      \<and> fle (fl (9 / 10)) (fl 1) \<and> fle (fl 1) (fl (11 / 10))"
    using statistics_average_min_max [of ?b] statistics_spread by auto
  ultimately show ?thesis
    using statistics_ones statistics_spread by simp
qed


end
